theory Spec2Isabelle
  imports Main "HOL-Library.Word"
begin

section \<open>Python values used by the IPC client and the UXD server\<close>

type_synonym byte = "8 word"

type_synonym timestamp = nat

text \<open>
  The exceptions that occur in \<^verbatim>\<open>client/base.py\<close> and \<^verbatim>\<open>server/uxd.py\<close>.
  \<open>freedmIPCMessageHandler e\<close> wraps the exception \<open>e\<close> of the message handler.
\<close>

datatype exn =
    CancelledError
  | ConnectionResetError
  | TypeError
  | UnboundLocalError
  | OSError
  | StructError
  | OtherError string
  | freedmIPCMessageHandler exn
  | freedmIPCSocketCreation
  | freedmIPCSocketShutdown

text \<open>
  Truthiness of an \<^verbatim>\<open>Optional[int]\<close>, as in \<^verbatim>\<open>if self.chunksize:\<close> and
  \<^verbatim>\<open>self.limit or -1\<close>: \<^verbatim>\<open>None\<close> and \<open>0\<close> are false.
\<close>

definition truthy :: "int option \<Rightarrow> bool" where
  "truthy v = (case v of None \<Rightarrow> False | Some n \<Rightarrow> n \<noteq> 0)"

text \<open>\<^verbatim>\<open>v or d\<close> for an \<^verbatim>\<open>Optional[int]\<close> \<open>v\<close>.\<close>

definition or_else :: "int option \<Rightarrow> int \<Rightarrow> int" where
  "or_else v d = (case v of None \<Rightarrow> d | Some n \<Rightarrow> (if n \<noteq> 0 then n else d))"

section \<open>The stream reader\<close>

text \<open>
  \<^verbatim>\<open>connection.reader\<close> is an \<^verbatim>\<open>asyncio.StreamReader\<close>. The client calls
  \<^verbatim>\<open>at_eof()\<close>, \<^verbatim>\<open>read(n)\<close> and \<^verbatim>\<open>feed_eof()\<close> on it. Its state is the
  buffer of bytes already received, the end-of-input flag, and what the event loop will
  deliver while a read is suspended: further writes of the peer, the end of input, or an
  exception thrown into the waiting read (cancellation, connection reset, any other fault).
\<close>

datatype arrival = Data "byte list" | Eof | Throw exn

record reader =
  buffer :: "byte list"
  eof :: bool
  pending :: "arrival list"

text \<open>What an awaited call does: it returns a value, raises, or never resumes.\<close>

datatype 'a result = Returns 'a | Raises exn | Hangs

definition at_eof :: "reader \<Rightarrow> bool" where
  "at_eof r = (eof r \<and> buffer r = [])"

definition feed_eof :: "reader \<Rightarrow> reader" where
  "feed_eof r = r\<lparr>eof := True\<rparr>"

text \<open>
  \<^verbatim>\<open>_wait_for_data\<close>: suspend until the event loop feeds data or the end of input, or
  throws. Feeding an empty byte string does not wake the reader. With nothing left to
  arrive the read is never resumed.
\<close>

fun wait_for_data :: "arrival list \<Rightarrow> (byte list \<times> bool) result \<times> arrival list" where
  "wait_for_data [] = (Hangs, [])"
| "wait_for_data (Data bs # rest) =
     (if bs = [] then wait_for_data rest else (Returns (bs, False), rest))"
| "wait_for_data (Eof # rest) = (Returns ([], True), rest)"
| "wait_for_data (Throw e # rest) = (Raises e, rest)"

text \<open>
  \<^verbatim>\<open>read(n)\<close> for \<open>n < 0\<close>: everything up to the end of input, in one byte string.
  The blocks collected so far are lost when the wait raises.
\<close>

fun read_rest :: "byte list \<Rightarrow> arrival list \<Rightarrow> byte list result \<times> arrival list" where
  "read_rest acc [] = (Hangs, [])"
| "read_rest acc (Data bs # rest) = read_rest (acc @ bs) rest"
| "read_rest acc (Eof # rest) = (Returns acc, rest)"
| "read_rest acc (Throw e # rest) = (Raises e, rest)"

definition read_all :: "reader \<Rightarrow> byte list result \<times> reader" where
  "read_all r =
     (if eof r then (Returns (buffer r), r\<lparr>buffer := []\<rparr>)
      else case read_rest (buffer r) (pending r) of
          (Returns bs, rest) \<Rightarrow> (Returns bs, r\<lparr>buffer := [], eof := True, pending := rest\<rparr>)
        | (Raises e, rest) \<Rightarrow> (Raises e, r\<lparr>buffer := [], pending := rest\<rparr>)
        | (Hangs, rest) \<Rightarrow> (Hangs, r\<lparr>buffer := [], pending := rest\<rparr>))"

text \<open>
  \<^verbatim>\<open>read(n)\<close>: nothing for \<open>n = 0\<close>; everything up to the end of input for
  \<open>n < 0\<close>; otherwise at most \<open>n\<close> bytes of the buffer, after one wait when the buffer is
  empty and the end of input has not been seen.
\<close>

definition read :: "int \<Rightarrow> reader \<Rightarrow> byte list result \<times> reader" where
  "read n r =
     (if n = 0 then (Returns [], r)
      else if n < 0 then read_all r
      else if buffer r = [] \<and> \<not> eof r then
        (case wait_for_data (pending r) of
            (Returns (bs, e), rest) \<Rightarrow>
              (Returns (take (nat n) bs), r\<lparr>buffer := drop (nat n) bs, eof := e, pending := rest\<rparr>)
          | (Raises e, rest) \<Rightarrow> (Raises e, r\<lparr>pending := rest\<rparr>)
          | (Hangs, rest) \<Rightarrow> (Hangs, r\<lparr>pending := rest\<rparr>))
      else (Returns (take (nat n) (buffer r)), r\<lparr>buffer := drop (nat n) (buffer r)\<rparr>))"

section \<open>Connections\<close>

text \<open>
  Modelled from the spec: the module \<^verbatim>\<open>freedm.utils.ipc.connection\<close> is not part of the
  sources. \<open>ConnectionType\<close> has the two modes the spec names; \<open>connection\<close> has the
  fields that both \<^verbatim>\<open>_assembleConnection\<close> methods pass to the constructor, and \<open>conn_state\<close>
  the keys of the \<^verbatim>\<open>state\<close> dictionary built there.
\<close>

datatype ConnectionType = EPHEMERAL | PERSISTENT

record conn_state =
  st_mode :: ConnectionType
  created :: timestamp
  updated :: timestamp
  closed :: "timestamp option"

text \<open>
  The \<^verbatim>\<open>asyncio.StreamWriter\<close> of a connection, as far as the client uses it: the socket
  it reports as extra info, whether its transport is closing, whether the transport
  supports a write-side end of file, and whether one has been written.
\<close>

record writer =
  extra_socket :: nat
  is_closing :: bool
  can_write_eof :: bool
  eof_written :: bool

record connection =
  socket :: nat
  pid :: "int option"
  uid :: "int option"
  gid :: "int option"
  client_address :: "string option"
  server_address :: "string option"
  reader :: reader
  writer :: writer
  state :: conn_state

section \<open>The client\<close>

text \<open>
  The attributes of an \<^verbatim>\<open>IPCSocketClient\<close>. \<open>x_connection\<close> is \<^verbatim>\<open>self._connection\<close>:
  \<^verbatim>\<open>None\<close> or a reference to the connection object; \<open>x_handler\<close> is \<^verbatim>\<open>self._handler\<close>:
  \<^verbatim>\<open>None\<close> or the task running \<^verbatim>\<open>_handleConnection\<close>.
\<close>

record client =
  timeout :: "int option"
  limit :: "int option"
  chunksize :: "int option"
  mode :: "ConnectionType option"
  x_connection :: "unit option"
  x_handler :: "unit option"

text \<open>
  What the client does that can be seen from outside, in order. The trace is kept next to
  the state so that "how often" and "how many bytes" can be stated.
\<close>

datatype event =
    Read_call int
  | Read_returned "byte list"
  | Handle_message "byte list"
  | Close_call
  | Pre_disconnect
  | Handler_cancel
  | Feed_eof
  | Write_eof
  | Writer_close
  | Closed_stamp timestamp
  | Post_disconnect

text \<open>
  The state the client's methods work on: the client's attributes, the one connection
  object that \<^verbatim>\<open>self._connection\<close> and the handler's parameter \<^verbatim>\<open>connection\<close> both refer
  to, the clock (\<^verbatim>\<open>time.time()\<close> returns its value; successive calls return successive
  values), and the trace.
\<close>

record world =
  self :: client
  obj :: connection
  clock :: nat
  trace :: "event list"

definition emit :: "event \<Rightarrow> world \<Rightarrow> world" where
  "emit e w = w\<lparr>trace := trace w @ [e]\<rparr>"

definition time_time :: "world \<Rightarrow> timestamp \<times> world" where
  "time_time w = (clock w, w\<lparr>clock := Suc (clock w)\<rparr>)"

text \<open>
  \<^verbatim>\<open>connected\<close>: \<^verbatim>\<open>self._connection and not self._connection.state['closed']\<close>. A
  connection object is true; a timestamp is true unless it is \<open>0\<close>.
\<close>

definition connected :: "world \<Rightarrow> bool" where
  "connected w =
     (case x_connection (self w) of
        None \<Rightarrow> False
      | Some c \<Rightarrow> (case closed (state (obj w)) of None \<Rightarrow> True | Some t \<Rightarrow> t = 0))"

text \<open>
  \<^verbatim>\<open>__init__\<close> and the class attributes \<^verbatim>\<open>_connection = None\<close>, \<^verbatim>\<open>_handler = None\<close>:
  a client that has not been opened.
\<close>

definition init ::
  "int option \<Rightarrow> int option \<Rightarrow> int option \<Rightarrow> ConnectionType option \<Rightarrow> client" where
  "init timeout' limit' chunksize' mode' =
     \<lparr>timeout = timeout', limit = limit', chunksize = chunksize', mode = mode',
      x_connection = None, x_handler = None\<rparr>"

text \<open>
  \<^verbatim>\<open>self.mode or ConnectionType.PERSISTENT\<close>; a member of the enumeration counts as true.
\<close>

definition mode_or_persistent :: "ConnectionType option \<Rightarrow> ConnectionType" where
  "mode_or_persistent m = (case m of None \<Rightarrow> PERSISTENT | Some t \<Rightarrow> t)"

text \<open>
  \<^verbatim>\<open>IPCSocketClient._assembleConnection\<close>. \<open>c\<close> is the clock; the two calls of
  \<^verbatim>\<open>time.time()\<close> are made in the order of the dictionary's keys.
\<close>

definition assembleConnection :: "client \<Rightarrow> reader \<Rightarrow> writer \<Rightarrow> nat \<Rightarrow> connection \<times> nat" where
  "assembleConnection cl rd wr c =
     (\<lparr>socket = extra_socket wr,
       pid = None,
       uid = None,
       gid = None,
       client_address = None,
       server_address = None,
       reader = rd,
       writer = wr,
       state = \<lparr>st_mode = mode_or_persistent (mode cl),
                created = c, updated = Suc c, closed = None\<rparr>\<rparr>, Suc (Suc c))"

section \<open>Shutdown\<close>

text \<open>
  The calls of the close handshake that can raise. \<open>f step\<close> is the exception the call
  raises in this run, if any; a cancellation that reaches the task during
  \<^verbatim>\<open>asyncio.sleep\<close> is one of them.
\<close>

datatype hs_step = Step_feed_eof | Step_write_eof | Step_sleep | Step_close

type_synonym faults = "hs_step \<Rightarrow> exn option"

definition attempt :: "faults \<Rightarrow> hs_step \<Rightarrow> (world \<Rightarrow> world) \<Rightarrow> world \<Rightarrow> exn option \<times> world" where
  "attempt f s act w = (case f s of Some e \<Rightarrow> (Some e, w) | None \<Rightarrow> (None, act w))"

definition and_then ::
  "exn option \<times> world \<Rightarrow> (world \<Rightarrow> exn option \<times> world) \<Rightarrow> exn option \<times> world" where
  "and_then r k = (case r of (Some e, w) \<Rightarrow> (Some e, w) | (None, w) \<Rightarrow> k w)"

definition do_feed_eof :: "world \<Rightarrow> world" where
  "do_feed_eof w = emit Feed_eof (w\<lparr>obj := (obj w)\<lparr>reader := feed_eof (reader (obj w))\<rparr>\<rparr>)"

definition do_write_eof :: "world \<Rightarrow> world" where
  "do_write_eof w =
     emit Write_eof (w\<lparr>obj := (obj w)\<lparr>writer := (writer (obj w))\<lparr>eof_written := True\<rparr>\<rparr>\<rparr>)"

definition do_writer_close :: "world \<Rightarrow> world" where
  "do_writer_close w =
     emit Writer_close (w\<lparr>obj := (obj w)\<lparr>writer := (writer (obj w))\<lparr>is_closing := True\<rparr>\<rparr>\<rparr>)"

text \<open>The body of the \<^verbatim>\<open>try\<close> in \<^verbatim>\<open>closeConnection\<close>, up to the first call that raises.\<close>

definition handshake :: "faults \<Rightarrow> world \<Rightarrow> exn option \<times> world" where
  "handshake f w =
     and_then
       (and_then
          (if at_eof (reader (obj w)) then attempt f Step_feed_eof do_feed_eof w
           else if can_write_eof (writer (obj w)) then attempt f Step_write_eof do_write_eof w
           else (None, w))
          (attempt f Step_sleep id))
       (attempt f Step_close do_writer_close)"

text \<open>The \<^verbatim>\<open>finally\<close> clause: \<^verbatim>\<open>connection.state['closed'] = time.time()\<close>.\<close>

definition stamp_closed :: "world \<Rightarrow> world" where
  "stamp_closed w =
     (case time_time w of (t, w') \<Rightarrow>
        emit (Closed_stamp t) (w'\<lparr>obj := (obj w')\<lparr>state := (state (obj w'))\<lparr>closed := Some t\<rparr>\<rparr>\<rparr>))"

text \<open>
  \<^verbatim>\<open>closeConnection\<close>: nothing when the writer's transport is already closing; otherwise
  the handshake, whose exception is dropped (\<^verbatim>\<open>except: pass\<close>), and the \<^verbatim>\<open>finally\<close>
  clause.
\<close>

definition closeConnection :: "faults \<Rightarrow> world \<Rightarrow> world" where
  "closeConnection f w =
     (if \<not> is_closing (writer (obj w)) then
        (case handshake f w of (_, w') \<Rightarrow> stamp_closed w')
      else w)"

text \<open>
  \<^verbatim>\<open>__aexit__\<close>. The hooks \<^verbatim>\<open>_pre_disconnect\<close> and \<^verbatim>\<open>_post_disconnect\<close> are the
  templates of the base class, which do nothing; they appear in the trace. The parent's
  \<^verbatim>\<open>__aexit__\<close> (\<^verbatim>\<open>BlockingContextManager\<close>, not part of the sources) is taken to do
  nothing to this state.
\<close>

definition aexit :: "faults \<Rightarrow> world \<Rightarrow> world" where
  "aexit f w =
     (if \<not> connected w then w
      else
        let handler = x_handler (self w);
            connection = x_connection (self w);
            w1 = w\<lparr>self := (self w)\<lparr>x_handler := None, x_connection := None\<rparr>\<rparr>;
            w2 = emit Pre_disconnect w1;
            w3 = (case handler of None \<Rightarrow> w2 | Some _ \<Rightarrow> emit Handler_cancel w2);
            w4 = (case connection of None \<Rightarrow> w3 | Some _ \<Rightarrow> closeConnection f w3)
        in emit Post_disconnect w4)"

text \<open>\<^verbatim>\<open>close\<close>: \<^verbatim>\<open>await self.__aexit__()\<close>.\<close>

definition close :: "faults \<Rightarrow> world \<Rightarrow> world" where
  "close f w = aexit f (emit Close_call w)"

text \<open>
  \<^verbatim>\<open>_onConnectionEstablished\<close>: store the connection and start the handler task. The
  task only starts to run when the caller next suspends.
\<close>

definition onConnectionEstablished :: "connection \<Rightarrow> world \<Rightarrow> world" where
  "onConnectionEstablished c w =
     w\<lparr>obj := c, self := (self w)\<lparr>x_connection := Some (), x_handler := Some ()\<rparr>\<rparr>"

section \<open>The read loop\<close>

text \<open>What one pass through the \<^verbatim>\<open>try\<close> of the loop body yields.\<close>

datatype fetched = Stop_budget | Got "byte list" | Failed exn | Stuck

text \<open>\<^verbatim>\<open>connection.state['updated'] = time.time()\<close>\<close>

definition stamp_updated :: "world \<Rightarrow> world" where
  "stamp_updated w =
     (case time_time w of (t, w') \<Rightarrow>
        w'\<lparr>obj := (obj w')\<lparr>state := (state (obj w'))\<lparr>updated := t\<rparr>\<rparr>\<rparr>)"

text \<open>\<^verbatim>\<open>raw = await connection.reader.read(n)\<close>, with the call and its result traced.\<close>

definition do_read :: "int \<Rightarrow> world \<Rightarrow> fetched \<times> world" where
  "do_read n w =
     (case read n (reader (obj w)) of (res, r') \<Rightarrow>
        let w' = emit (Read_call n) (w\<lparr>obj := (obj w)\<lparr>reader := r'\<rparr>\<rparr>) in
        (case res of
           Returns raw \<Rightarrow> (Got raw, emit (Read_returned raw) w')
         | Raises e \<Rightarrow> (Failed e, w')
         | Hangs \<Rightarrow> (Stuck, w')))"

text \<open>\<^verbatim>\<open>self.limit and self.limit - chunks * self.chunksize < self.chunksize\<close>\<close>

definition over_budget :: "int option \<Rightarrow> int \<Rightarrow> int \<Rightarrow> bool" where
  "over_budget lim chunks c =
     (case lim of None \<Rightarrow> False | Some l \<Rightarrow> l \<noteq> 0 \<and> l - chunks * c < c)"

text \<open>The branch \<^verbatim>\<open>if self.chunksize:\<close> for the chunk size \<open>c\<close>.\<close>

definition read_chunk :: "int \<Rightarrow> int \<Rightarrow> world \<Rightarrow> fetched \<times> int \<times> world" where
  "read_chunk c chunks w =
     (if over_budget (limit (self w)) chunks c then (Stop_budget, chunks, w)
      else (case do_read c w of
              (Got raw, w') \<Rightarrow> (Got raw, chunks + 1, w')
            | (res, w') \<Rightarrow> (res, chunks, w')))"

text \<open>The \<^verbatim>\<open>else\<close> branch: \<^verbatim>\<open>read(self.limit or -1)\<close>.\<close>

definition read_upto :: "int \<Rightarrow> world \<Rightarrow> fetched \<times> int \<times> world" where
  "read_upto chunks w =
     (case do_read (or_else (limit (self w)) (- 1)) w of (res, w') \<Rightarrow> (res, chunks, w'))"

definition fetch :: "int \<Rightarrow> world \<Rightarrow> fetched \<times> int \<times> world" where
  "fetch chunks w =
     (case chunksize (self w) of
        None \<Rightarrow> read_upto chunks w
      | Some c \<Rightarrow> if c \<noteq> 0 then read_chunk c chunks w else read_upto chunks w)"

text \<open>
  \<^verbatim>\<open>await self.handleMessage(message)\<close>. The handler can be overridden; \<open>h raw\<close> is the
  exception it raises on the payload \<open>raw\<close>, if any.
\<close>

definition handleMessage ::
  "(byte list \<Rightarrow> exn option) \<Rightarrow> byte list \<Rightarrow> world \<Rightarrow> exn option \<times> world" where
  "handleMessage h raw w = (h raw, emit (Handle_message raw) w)"

text \<open>How the \<^verbatim>\<open>while\<close> loop is left.\<close>

datatype loop_exit =
    End_of_input
  | Budget_exhausted
  | Cancelled
  | Reset
  | Read_fault exn
  | Handler_fault exn
  | Blocked

text \<open>The three \<^verbatim>\<open>except\<close> clauses around the read, in their order.\<close>

fun read_exit :: "exn \<Rightarrow> loop_exit" where
  "read_exit CancelledError = Cancelled"
| "read_exit ConnectionResetError = Reset"
| "read_exit e = Read_fault e"

text \<open>The measure by which the loop terminates: what the reader still holds or will get.\<close>

fun psize :: "arrival list \<Rightarrow> nat" where
  "psize [] = 0"
| "psize (Data bs # rest) = Suc (length bs + psize rest)"
| "psize (a # rest) = Suc (psize rest)"

definition rsize :: "reader \<Rightarrow> nat" where
  "rsize r = length (buffer r) + psize (pending r)"

lemma wait_for_data_size:
  "wait_for_data p = (Returns (bs, e), rest) \<Longrightarrow> length bs + psize rest < psize p"
  by (induction p rule: wait_for_data.induct) (auto split: if_splits)

lemma read_rest_size:
  "read_rest acc p = (Returns bs, rest) \<Longrightarrow> psize rest < psize p"
  by (induction acc p rule: read_rest.induct) (auto split: if_splits)

lemma read_size:
  assumes "read n r = (Returns raw, r')" "n \<noteq> 0" "\<not> at_eof r"
  shows "rsize r' < rsize r"
proof (cases "n < 0")
  case True
  with assms show ?thesis
    by (auto simp: read_def read_all_def rsize_def at_eof_def
        split: if_splits prod.splits result.splits dest: read_rest_size)
next
  case False
  with assms have n: "0 < n" by simp
  show ?thesis
  proof (cases "buffer r = [] \<and> \<not> eof r")
    case True
    with assms n show ?thesis
      by (auto simp: read_def rsize_def split: prod.splits result.splits dest!: wait_for_data_size)
  next
    case False
    with assms n have "buffer r \<noteq> []" by (auto simp: at_eof_def)
    with assms n False show ?thesis
      by (auto simp: read_def rsize_def)
  qed
qed

lemma do_read_size:
  "do_read n w = (Got raw, w') \<Longrightarrow> n \<noteq> 0 \<Longrightarrow> \<not> at_eof (reader (obj w)) \<Longrightarrow>
     rsize (reader (obj w')) < rsize (reader (obj w))"
  by (auto simp: do_read_def emit_def Let_def split: prod.splits result.splits dest: read_size)

lemma fetch_size:
  "fetch chunks w = (Got raw, c, w') \<Longrightarrow> \<not> at_eof (reader (obj w)) \<Longrightarrow>
     rsize (reader (obj w')) < rsize (reader (obj w))"
  by (auto simp: fetch_def read_chunk_def read_upto_def or_else_def
      split: option.splits if_splits prod.splits fetched.splits dest: do_read_size)

lemma stamp_updated_reader [simp]: "reader (obj (stamp_updated w)) = reader (obj w)"
  by (simp add: stamp_updated_def time_time_def)

lemma handleMessage_reader:
  "handleMessage h raw w = (r, w') \<Longrightarrow> reader (obj w') = reader (obj w)"
  by (auto simp: handleMessage_def emit_def)

lemma fetch_stamped_size:
  "(Got raw, c, w1) = fetch chunks (stamp_updated w) \<Longrightarrow> \<not> at_eof (reader (obj w)) \<Longrightarrow>
     rsize (reader (obj w1)) < rsize (reader (obj w))"
  using fetch_size [of chunks "stamp_updated w" raw c w1] by simp

lemma handled_size:
  "(Got raw, c, w1) = fetch chunks (stamp_updated w) \<Longrightarrow> (r, w2) = handleMessage h raw w1 \<Longrightarrow>
     \<not> at_eof (reader (obj w)) \<Longrightarrow> rsize (reader (obj w2)) < rsize (reader (obj w))"
  using fetch_stamped_size [of raw c w1 chunks w] handleMessage_reader [of h raw w1 r w2] by simp

text \<open>
  The \<^verbatim>\<open>while not connection.reader.at_eof()\<close> loop of \<^verbatim>\<open>_handleConnection\<close>, with the
  counter \<open>chunks\<close>. Every \<^verbatim>\<open>except\<close> clause around the read breaks; a handler fault
  leaves the loop by \<^verbatim>\<open>raise\<close>; a read that is never resumed leaves the task suspended.
\<close>

function read_loop :: "(byte list \<Rightarrow> exn option) \<Rightarrow> int \<Rightarrow> world \<Rightarrow> loop_exit \<times> world" where
  "read_loop h chunks w =
     (if at_eof (reader (obj w)) then (End_of_input, w)
      else
        (case fetch chunks (stamp_updated w) of
           (Stop_budget, c, w1) \<Rightarrow> (Budget_exhausted, w1)
         | (Failed e, c, w1) \<Rightarrow> (read_exit e, w1)
         | (Stuck, c, w1) \<Rightarrow> (Blocked, w1)
         | (Got raw, c, w1) \<Rightarrow>
             if \<not> length raw = 0 then
               (case handleMessage h raw w1 of
                  (Some e, w2) \<Rightarrow> (Handler_fault e, w2)
                | (None, w2) \<Rightarrow> read_loop h c w2)
             else read_loop h c w1))"
  by pat_completeness auto
termination
  apply (relation "measure (\<lambda>(h, chunks, w). rsize (reader (obj w)))")
    apply simp
   apply (auto dest: handled_size fetch_stamped_size)
  done

declare read_loop.simps [simp del]

text \<open>
  \<^verbatim>\<open>_handleConnection\<close>: the loop, then \<^verbatim>\<open>await self.close()\<close>. The
  \<^verbatim>\<open>raise freedmIPCMessageHandler(e)\<close> inside the loop leaves the coroutine before that
  line.
\<close>

definition handleConnection ::
  "(byte list \<Rightarrow> exn option) \<Rightarrow> faults \<Rightarrow> world \<Rightarrow> unit result \<times> world" where
  "handleConnection h f w =
     (case read_loop h 0 w of
        (Handler_fault e, w') \<Rightarrow> (Raises (freedmIPCMessageHandler e), w')
      | (Blocked, w') \<Rightarrow> (Hangs, w')
      | (ex, w') \<Rightarrow> (Returns (), close f w'))"

section \<open>The UXD server\<close>

text \<open>
  \<^verbatim>\<open>struct.unpack('3i', credentials)\<close>: three signed integers of four bytes each in the
  byte order of the platform; a buffer of any other length than twelve bytes raises
  \<^verbatim>\<open>struct.error\<close>.
\<close>

datatype byteorder = Little_endian | Big_endian

fun unsigned_le :: "byte list \<Rightarrow> int" where
  "unsigned_le [] = 0"
| "unsigned_le (b # bs) = uint b + 256 * unsigned_le bs"

definition unsigned_of :: "byteorder \<Rightarrow> byte list \<Rightarrow> int" where
  "unsigned_of bo bs = (case bo of Little_endian \<Rightarrow> unsigned_le bs | Big_endian \<Rightarrow> unsigned_le (rev bs))"

definition signed32 :: "byteorder \<Rightarrow> byte list \<Rightarrow> int" where
  "signed32 bo bs =
     (let u = unsigned_of bo bs in if u < 2 ^ 31 then u else u - 2 ^ 32)"

definition unpack_3i :: "byteorder \<Rightarrow> byte list \<Rightarrow> exn + (int \<times> int \<times> int)" where
  "unpack_3i bo bs =
     (if length bs \<noteq> 12 then Inl StructError
      else Inr (signed32 bo (take 4 bs), signed32 bo (take 4 (drop 4 bs)), signed32 bo (drop 8 bs)))"

text \<open>
  \<^verbatim>\<open>UXDSocketServer._assembleConnection\<close>. \<open>peercred\<close> is what
  \<^verbatim>\<open>sock.getsockopt(SOL_SOCKET, SO_PEERCRED, struct.calcsize('3i'))\<close> gives for the
  socket of the writer: the credential record of the peer, or an exception. \<open>m\<close> is
  \<^verbatim>\<open>self.mode\<close> of the server and \<open>c\<close> the clock.
\<close>

definition uxd_assembleConnection ::
  "byteorder \<Rightarrow> (nat \<Rightarrow> exn + byte list) \<Rightarrow> ConnectionType option \<Rightarrow> reader \<Rightarrow> writer \<Rightarrow> nat
     \<Rightarrow> exn + (connection \<times> nat)" where
  "uxd_assembleConnection bo peercred m rd wr c =
     (let sock = extra_socket wr in
      case peercred sock of
        Inl e \<Rightarrow> Inl e
      | Inr credentials \<Rightarrow>
          (case unpack_3i bo credentials of
             Inl e \<Rightarrow> Inl e
           | Inr (pid', uid', gid') \<Rightarrow>
               Inr (\<lparr>socket = sock,
                     pid = Some pid',
                     uid = Some uid',
                     gid = Some gid',
                     client_address = None,
                     server_address = None,
                     reader = rd,
                     writer = wr,
                     state = \<lparr>st_mode = mode_or_persistent m,
                              created = c, updated = Suc c, closed = None\<rparr>\<rparr>, Suc (Suc c))))"

text \<open>
  The part of the file system that \<^verbatim>\<open>UXDSocketServer.__aenter__\<close> looks at: what, if
  anything, exists at a path.
\<close>

datatype node = Regular_file | Directory | Socket_file

type_synonym filesystem = "string \<Rightarrow> node option"

text \<open>\<^verbatim>\<open>os.remove(path)\<close>; \<open>permitted\<close> says whether the system lets the process do it.\<close>

definition os_remove :: "bool \<Rightarrow> string \<Rightarrow> filesystem \<Rightarrow> exn + filesystem" where
  "os_remove permitted p fs = (if permitted then Inr (fs(p := None)) else Inl OSError)"

text \<open>
  \<^verbatim>\<open>os.rmdir()\<close> as the source calls it, without the path: the call raises
  \<^verbatim>\<open>TypeError\<close> for the missing argument and the file system is not touched.
\<close>

definition os_rmdir_no_argument :: "filesystem \<Rightarrow> exn + filesystem" where
  "os_rmdir_no_argument fs = Inl TypeError"

text \<open>
  The message of the directory branch, \<^verbatim>\<open>f'... is a directory ({e})'\<close>. \<^verbatim>\<open>e\<close> is a
  local variable of \<^verbatim>\<open>__aenter__\<close> (the later clauses \<^verbatim>\<open>except Exception as e\<close> bind
  it); \<open>None\<close> stands for the variable not being bound, and then the evaluation raises
  \<^verbatim>\<open>UnboundLocalError\<close>.
\<close>

definition directory_message :: "exn option \<Rightarrow> exn + string" where
  "directory_message e =
     (case e of None \<Rightarrow> Inl UnboundLocalError | Some x \<Rightarrow> Inr ''is a directory'')"

text \<open>
  \<^verbatim>\<open>sock.bind(path)\<close> creates the socket file; it raises \<^verbatim>\<open>OSError\<close> when something
  exists at the path or the system does not permit it.
\<close>

definition sock_bind :: "bool \<Rightarrow> string \<Rightarrow> filesystem \<Rightarrow> exn + filesystem" where
  "sock_bind permitted p fs =
     (if fs p = None \<and> permitted then Inr (fs(p := Some Socket_file)) else Inl OSError)"

text \<open>
  \<^verbatim>\<open>UXDSocketServer.__aenter__\<close> up to the bound socket. In the directory branch no
  \<^verbatim>\<open>except ... as e\<close> clause has run, so \<^verbatim>\<open>e\<close> is not bound when the handler builds
  its message.
\<close>

definition uxd_aenter :: "bool \<Rightarrow> string option \<Rightarrow> filesystem \<Rightarrow> exn + filesystem" where
  "uxd_aenter permitted path fs =
     (case path of
        None \<Rightarrow> Inl freedmIPCSocketCreation
      | Some p \<Rightarrow>
          if p = [] then Inl freedmIPCSocketCreation
          else
            (case
               (if fs p \<noteq> None then
                  (if fs p = Some Directory then
                     (case os_rmdir_no_argument fs of
                        Inl _ \<Rightarrow>
                          (case directory_message None of
                             Inl x \<Rightarrow> Inl x
                           | Inr msg \<Rightarrow> Inl freedmIPCSocketCreation)
                      | Inr fs' \<Rightarrow> Inr fs')
                   else
                     (case os_remove permitted p fs of
                        Inl _ \<Rightarrow> Inl freedmIPCSocketCreation
                      | Inr fs' \<Rightarrow> Inr fs'))
                else Inr fs)
             of
               Inl x \<Rightarrow> Inl x
             | Inr fs' \<Rightarrow>
                 (case sock_bind permitted p fs' of
                    Inl _ \<Rightarrow> Inl freedmIPCSocketCreation
                  | Inr fs'' \<Rightarrow> Inr fs'')))"

section \<open>A connected client\<close>

text \<open>
  The state right after \<^verbatim>\<open>__aenter__\<close> of a client \<open>cl\<close> whose \<^verbatim>\<open>_init_connect\<close>
  returned the connection assembled from \<open>rd\<close> and \<open>wr\<close>, with the clock at \<open>1\<close> and
  an empty trace.
\<close>

definition opened :: "client \<Rightarrow> reader \<Rightarrow> writer \<Rightarrow> world" where
  "opened cl rd wr =
     (case assembleConnection cl rd wr 1 of
        (c, clk) \<Rightarrow> onConnectionEstablished c \<lparr>self = cl, obj = c, clock = clk, trace = []\<rparr>)"

text \<open>What the trace says: the payloads handed to the handler, the reads, the calls of \<^verbatim>\<open>close\<close>.\<close>

fun messages :: "event list \<Rightarrow> byte list list" where
  "messages [] = []"
| "messages (Handle_message m # t) = m # messages t"
| "messages (e # t) = messages t"

fun reads :: "event list \<Rightarrow> int list" where
  "reads [] = []"
| "reads (Read_call n # t) = n # reads t"
| "reads (e # t) = reads t"

fun returned :: "event list \<Rightarrow> byte list list" where
  "returned [] = []"
| "returned (Read_returned m # t) = m # returned t"
| "returned (e # t) = returned t"

definition closes :: "event list \<Rightarrow> nat" where
  "closes t = length (filter (\<lambda>e. e = Close_call) t)"

fun stamps :: "event list \<Rightarrow> timestamp list" where
  "stamps [] = []"
| "stamps (Closed_stamp s # t) = s # stamps t"
| "stamps (e # t) = stamps t"

definition total_bytes :: "byte list list \<Rightarrow> nat" where
  "total_bytes ms = sum_list (map length ms)"

text \<open>A reader on which nothing has arrived yet, and a writer whose transport is open.\<close>

definition idle_reader :: reader where
  "idle_reader = \<lparr>buffer = [], eof = False, pending = []\<rparr>"

definition open_writer :: writer where
  "open_writer = \<lparr>extra_socket = 3, is_closing = False, can_write_eof = True, eof_written = False\<rparr>"

text \<open>
  The state after the rest of the loop body that follows a pass through the \<^verbatim>\<open>try\<close>: a
  non-empty result has been handed to the handler.
\<close>

definition after_fetch :: "fetched \<Rightarrow> world \<Rightarrow> world" where
  "after_fetch r w =
     (case r of Got raw \<Rightarrow> if raw \<noteq> [] then emit (Handle_message raw) w else w | _ \<Rightarrow> w)"

text \<open>
  A check on a stretch of the trace: every read is issued while at least one chunk of \<open>C\<close>
  bytes is left of the limit \<open>L\<close>, counting the bytes that the reads before it returned
  (\<open>got\<close> of them before the stretch).
\<close>

fun reads_within :: "int \<Rightarrow> int \<Rightarrow> int \<Rightarrow> event list \<Rightarrow> bool" where
  "reads_within L C got [] = True"
| "reads_within L C got (Read_call n # t) = (C \<le> L - got \<and> reads_within L C got t)"
| "reads_within L C got (Read_returned m # t) = reads_within L C (got + int (length m)) t"
| "reads_within L C got (e # t) = reads_within L C got t"

text \<open>
  What holds of the events \<open>new\<close> of the chunked loop when its counter is \<open>j\<close>: the
  counter is within the budget, and it bounds the reads and, in chunks, the bytes.
\<close>

definition chunk_inv :: "int \<Rightarrow> int \<Rightarrow> event list \<Rightarrow> int \<Rightarrow> bool" where
  "chunk_inv L C new j =
     (0 \<le> j \<and> j \<le> L div C \<and> reads_within L C 0 new
      \<and> int (total_bytes (returned new)) \<le> j * C
      \<and> total_bytes (messages new) \<le> total_bytes (returned new)
      \<and> int (length (reads new)) \<le> j)"

text \<open>
  A client with \<^verbatim>\<open>chunksize=4, limit=8\<close> whose peer writes two bytes and then seven: the
  first read returns short.
\<close>

definition short_reads :: world where
  "short_reads = opened (init None (Some 8) (Some 4) None)
     (idle_reader\<lparr>pending := [Data [1, 2], Data [3, 4, 5, 6, 7, 8, 9]]\<rparr>) open_writer"

text \<open>
  The faults of the handshake when \<^verbatim>\<open>close\<close> is called by the handler task itself:
  \<^verbatim>\<open>handler.cancel()\<close> has then cancelled the running task, and the cancellation is
  delivered where the task next suspends, at the pause of the handshake.
\<close>

definition handler_cancelled :: faults where
  "handler_cancelled s = (if s = Step_sleep then Some CancelledError else None)"

text \<open>
  The native record of a C \<^verbatim>\<open>int\<close> with the value \<open>v\<close> on a platform of byte order
  \<open>bo\<close>: the four bytes of its two's complement, the least significant byte first when
  the order is little-endian and last when it is big-endian. The peer-credential record
  holds three of them.
\<close>

definition record_bytes :: "byteorder \<Rightarrow> int \<Rightarrow> byte list" where
  "record_bytes bo v =
     (let u = v mod 2 ^ 32;
          le = [word_of_int u, word_of_int (u div 256), word_of_int (u div 65536),
                word_of_int (u div 16777216)]
      in case bo of Little_endian \<Rightarrow> le | Big_endian \<Rightarrow> rev le)"

section \<open>Facts about the trace\<close>

lemma stamps_append [simp]: "stamps (t @ u) = stamps t @ stamps u"
  by (induction t rule: stamps.induct) auto

lemma closes_append [simp]: "closes (t @ u) = closes t + closes u"
  by (simp add: closes_def)

lemma handshake_keeps:
  "handshake f w = (r, w') \<Longrightarrow>
     clock w' = clock w \<and> state (obj w') = state (obj w) \<and> self w' = self w
     \<and> stamps (trace w') = stamps (trace w) \<and> closes (trace w') = closes (trace w)"
  by (auto simp: handshake_def and_then_def attempt_def do_feed_eof_def do_write_eof_def
      do_writer_close_def emit_def closes_def [of "[_]"] closes_def [of "[_, _]"]
      split: if_splits option.splits prod.splits)

section \<open>The close handshake\<close>

lemma closeConnection_stamp:
  assumes "\<not> is_closing (writer (obj w))"
  shows "closed (state (obj (closeConnection f w))) = Some (clock w)
       \<and> stamps (trace (closeConnection f w)) = stamps (trace w) @ [clock w]"
proof -
  obtain r w' where h: "handshake f w = (r, w')" by (cases "handshake f w")
  from handshake_keeps [OF h] have k: "clock w' = clock w" "stamps (trace w') = stamps (trace w)"
    by simp_all
  from assms h have "closeConnection f w = stamp_closed w'"
    by (simp add: closeConnection_def)
  with k show ?thesis
    by (simp add: stamp_closed_def time_time_def emit_def)
qed

text \<open>
  C2 (as amended). When the writer's transport is not already closing on entry,
  \<^verbatim>\<open>closeConnection\<close> stamps \<open>closed\<close> with the current time exactly once before it
  returns, whichever calls of the handshake raise: every such exception is swallowed.
\<close>

theorem closeConnection_stamps_unless_closing:
  assumes "\<not> is_closing (writer (obj w))"
  shows "closed (state (obj (closeConnection f w))) = Some (clock w)
       \<and> stamps (trace (closeConnection f w)) = stamps (trace w) @ [clock w]"
  using assms by (rule closeConnection_stamp)

text \<open>
  An instance: the transport is open and the flush pause is cancelled; \<open>closed\<close> is
  stamped all the same.
\<close>

theorem closeConnection_stamps_witness:
  "\<not> is_closing (writer (obj (opened (init None None None None) idle_reader open_writer)))
   \<and> closed (state (obj (closeConnection (\<lambda>s. if s = Step_sleep then Some CancelledError else None)
        (opened (init None None None None) idle_reader open_writer)))) = Some 3"
  using closeConnection_stamps_unless_closing
    [of "opened (init None None None None) idle_reader open_writer"
        "\<lambda>s. if s = Step_sleep then Some CancelledError else None"]
  by (simp add: opened_def assembleConnection_def onConnectionEstablished_def open_writer_def)

text \<open>
  C2 as stated fails: for a connection whose transport is already closing,
  \<^verbatim>\<open>closeConnection\<close> returns without stamping \<open>closed\<close>, with no fault anywhere.
\<close>

theorem closeConnection_skips_closing_transport:
  "closed (state (obj (closeConnection (\<lambda>s. None)
      (opened (init None None None None) idle_reader (open_writer\<lparr>is_closing := True\<rparr>))))) = None"
  by (simp add: closeConnection_def opened_def assembleConnection_def onConnectionEstablished_def
      open_writer_def)

section \<open>Invariants of the read loop\<close>

text \<open>
  A property of the counter and the state that every pass through the loop body keeps
  holds when the loop is left, however it is left.
\<close>

lemma read_loop_invariant:
  assumes step: "\<And>k w r k' w1. I k w \<Longrightarrow> \<not> at_eof (reader (obj w)) \<Longrightarrow>
            fetch k (stamp_updated w) = (r, k', w1) \<Longrightarrow> I k' (after_fetch r w1)"
  shows "read_loop h k w = (ex, w') \<Longrightarrow> I k w \<Longrightarrow> \<exists>k'. I k' w'"
proof (induction h k w rule: read_loop.induct)
  case (1 h chunks w)
  show ?case
  proof (cases "at_eof (reader (obj w))")
    case True
    with "1.prems" show ?thesis by (auto simp: read_loop.simps)
  next
    case False
    obtain r c w1 where f: "fetch chunks (stamp_updated w) = (r, c, w1)"
      by (cases "fetch chunks (stamp_updated w)") auto
    from step [OF "1.prems"(2) False f] have i: "I c (after_fetch r w1)" .
    show ?thesis
    proof (cases r)
      case (Got raw)
      from f Got have fs: "(Got raw, c, w1) = fetch chunks (stamp_updated w)" by simp
      show ?thesis
      proof (cases "raw = []")
        case True
        with Got f False "1.prems"(1) have l: "read_loop h c w1 = (ex, w')"
          by (simp add: read_loop.simps [of h chunks w])
        from True have e: "\<not> length raw \<noteq> 0" by simp
        from i Got True have "I c w1" by (simp add: after_fetch_def)
        with "1.IH"(2) [OF False fs refl refl e l] show ?thesis .
      next
        case ne: False
        then have n: "length raw \<noteq> 0" by simp
        from i Got ne have i': "I c (emit (Handle_message raw) w1)" by (simp add: after_fetch_def)
        show ?thesis
        proof (cases "h raw")
          case None
          then have hm: "(None, emit (Handle_message raw) w1) = handleMessage h raw w1"
            by (simp add: handleMessage_def)
          from None Got f False ne "1.prems"(1)
          have l: "read_loop h c (emit (Handle_message raw) w1) = (ex, w')"
            by (simp add: read_loop.simps [of h chunks w] handleMessage_def)
          from "1.IH"(1) [OF False fs refl refl n hm refl l i'] show ?thesis .
        next
          case (Some e)
          with Got f False ne "1.prems"(1) have "w' = emit (Handle_message raw) w1"
            by (simp add: read_loop.simps [of h chunks w] handleMessage_def)
          with i' show ?thesis by blast
        qed
      qed
    next
      case Stop_budget
      with f False "1.prems"(1) have "w' = w1" by (simp add: read_loop.simps [of h chunks w])
      with i Stop_budget show ?thesis by (auto simp: after_fetch_def)
    next
      case (Failed e)
      with f False "1.prems"(1) have "w' = w1" by (simp add: read_loop.simps [of h chunks w])
      with i Failed show ?thesis by (auto simp: after_fetch_def)
    next
      case Stuck
      with f False "1.prems"(1) have "w' = w1" by (simp add: read_loop.simps [of h chunks w])
      with i Stuck show ?thesis by (auto simp: after_fetch_def)
    qed
  qed
qed

section \<open>Shutdown after the read loop\<close>

lemma closes_simps [simp]:
  "closes [] = 0"
  "closes (e # t) = (if e = Close_call then Suc (closes t) else closes t)"
  by (simp_all add: closes_def)

lemma closeConnection_keeps:
  "self (closeConnection f w) = self w \<and> closes (trace (closeConnection f w)) = closes (trace w)"
proof -
  obtain r w' where h: "handshake f w = (r, w')" by (cases "handshake f w")
  from handshake_keeps [OF h] h show ?thesis
    by (simp add: closeConnection_def stamp_closed_def time_time_def emit_def)
qed

lemma aexit_closes: "closes (trace (aexit f w)) = closes (trace w)"
  by (simp add: aexit_def Let_def emit_def closeConnection_keeps
      split: option.splits)

lemma aexit_disconnects: "\<not> connected (aexit f w)"
  by (auto simp: aexit_def Let_def emit_def connected_def closeConnection_keeps
      split: option.splits)

lemma fetch_closes:
  "fetch k w = (r, k', w1) \<Longrightarrow> closes (trace w1) = closes (trace w)"
  by (auto simp: fetch_def read_upto_def read_chunk_def do_read_def emit_def Let_def
     
      split: option.splits if_splits prod.splits fetched.splits result.splits)

lemma read_loop_closes:
  assumes "read_loop h k w = (ex, w')"
  shows "closes (trace w') = closes (trace w)"
proof -
  have "\<exists>k'::int. closes (trace w') = closes (trace w)"
  proof (rule read_loop_invariant
      [where I = "\<lambda>(k::int) (v::world). closes (trace v) = closes (trace w)", OF _ assms])
    fix k v r k' w1
    assume "closes (trace v) = closes (trace w)" "fetch k (stamp_updated v) = (r, k', w1)"
    then show "closes (trace (after_fetch r w1)) = closes (trace w)"
      using fetch_closes [of k "stamp_updated v" r k' w1]
      by (simp add: after_fetch_def emit_def stamp_updated_def time_time_def
          split: fetched.splits)
  qed simp
  then show ?thesis by simp
qed

lemma close_closes: "closes (trace (close f w)) = Suc (closes (trace w))"
  by (simp add: close_def aexit_closes emit_def)

text \<open>The definitions that a run on a concrete input unfolds.\<close>

lemmas run_defs = opened_def init_def idle_reader_def open_writer_def assembleConnection_def
  onConnectionEstablished_def mode_or_persistent_def read_loop.simps fetch_def read_upto_def read_chunk_def
  over_budget_def do_read_def read_def read_all_def at_eof_def stamp_updated_def time_time_def emit_def
  or_else_def handleMessage_def handleConnection_def close_def aexit_def connected_def closeConnection_def
  handshake_def and_then_def attempt_def do_feed_eof_def do_write_eof_def do_writer_close_def stamp_closed_def
  feed_eof_def closes_def total_bytes_def handler_cancelled_def Let_def

text \<open>
  C1 (as amended). When the read loop of \<^verbatim>\<open>_handleConnection\<close> ends by a clean end of
  input, by the exhausted chunk budget, by cancellation, by a peer reset or by any other read
  fault, \<^verbatim>\<open>close\<close> is called exactly once, after the loop and not during it. When the
  message handler raises, the coroutine is left with \<^verbatim>\<open>freedmIPCMessageHandler\<close> and
  \<^verbatim>\<open>close\<close> is not called. (A read that is never resumed leaves the task suspended.)
\<close>

theorem handleConnection_closes_once:
  assumes "read_loop h 0 w = (ex, w')"
  shows "case ex of
           Handler_fault e \<Rightarrow>
             handleConnection h f w = (Raises (freedmIPCMessageHandler e), w')
             \<and> closes (trace w') = closes (trace w)
         | Blocked \<Rightarrow> handleConnection h f w = (Hangs, w') \<and> closes (trace w') = closes (trace w)
         | _ \<Rightarrow>
             handleConnection h f w = (Returns (), close f w')
             \<and> closes (trace w') = closes (trace w)
             \<and> closes (trace (close f w')) = Suc (closes (trace w))"
  using assms read_loop_closes [OF assms]
  by (simp add: handleConnection_def close_closes split: loop_exit.splits)

text \<open>
  Two runs: the peer writes two bytes and closes; the task is cancelled while it waits for
  data. Each ends with one call of \<^verbatim>\<open>close\<close>.
\<close>

theorem handleConnection_closes_once_witness:
  "fst (read_loop (\<lambda>m. None) 0
      (opened (init None None None None) (idle_reader\<lparr>pending := [Data [1, 2], Eof]\<rparr>) open_writer))
     = End_of_input
   \<and> closes (trace (snd (handleConnection (\<lambda>m. None) handler_cancelled
      (opened (init None None None None) (idle_reader\<lparr>pending := [Data [1, 2], Eof]\<rparr>) open_writer))))
     = 1
   \<and> fst (read_loop (\<lambda>m. None) 0
      (opened (init None None None None) (idle_reader\<lparr>pending := [Throw CancelledError]\<rparr>) open_writer))
     = Cancelled
   \<and> closes (trace (snd (handleConnection (\<lambda>m. None) handler_cancelled
      (opened (init None None None None) (idle_reader\<lparr>pending := [Throw CancelledError]\<rparr>) open_writer))))
     = 1"
  using
    handleConnection_closes_once
      [of "\<lambda>m. None"
          "opened (init None None None None) (idle_reader\<lparr>pending := [Data [1, 2], Eof]\<rparr>) open_writer"
          "fst (read_loop (\<lambda>m. None) 0
             (opened (init None None None None) (idle_reader\<lparr>pending := [Data [1, 2], Eof]\<rparr>) open_writer))"
          "snd (read_loop (\<lambda>m. None) 0
             (opened (init None None None None) (idle_reader\<lparr>pending := [Data [1, 2], Eof]\<rparr>) open_writer))"
          handler_cancelled]
    handleConnection_closes_once
      [of "\<lambda>m. None"
          "opened (init None None None None) (idle_reader\<lparr>pending := [Throw CancelledError]\<rparr>) open_writer"
          "fst (read_loop (\<lambda>m. None) 0
             (opened (init None None None None) (idle_reader\<lparr>pending := [Throw CancelledError]\<rparr>) open_writer))"
          "snd (read_loop (\<lambda>m. None) 0
             (opened (init None None None None) (idle_reader\<lparr>pending := [Throw CancelledError]\<rparr>) open_writer))"
          handler_cancelled]
  by (simp add: run_defs)

text \<open>
  C1 as stated fails for a fault of the message handler: the peer writes two bytes, the
  handler raises on them, and \<^verbatim>\<open>_handleConnection\<close> ends with
  \<^verbatim>\<open>freedmIPCMessageHandler\<close> without any call of \<^verbatim>\<open>close\<close>.
\<close>

theorem handler_fault_skips_close:
  "fst (handleConnection (\<lambda>m. Some (OtherError ''boom'')) handler_cancelled
      (opened (init None None None None) (idle_reader\<lparr>pending := [Data [1, 2], Eof]\<rparr>) open_writer))
     = Raises (freedmIPCMessageHandler (OtherError ''boom''))
   \<and> closes (trace (snd (handleConnection (\<lambda>m. Some (OtherError ''boom'')) handler_cancelled
      (opened (init None None None None) (idle_reader\<lparr>pending := [Data [1, 2], Eof]\<rparr>) open_writer))))
     = 0"
  by (simp add: run_defs)

text \<open>
  C3. A second \<^verbatim>\<open>__aexit__\<close> changes nothing: the state after two calls is the state
  after one, whatever faults the handshakes meet, so \<open>closed\<close> is stamped at most once; and
  on a client that was never opened \<^verbatim>\<open>__aexit__\<close> changes nothing at all.
\<close>

theorem aexit_idempotent:
  "aexit g (aexit f w) = aexit f w
   \<and> length (stamps (trace (aexit g (aexit f w)))) \<le> Suc (length (stamps (trace w)))
   \<and> aexit f (w\<lparr>self := init t l c m\<rparr>) = w\<lparr>self := init t l c m\<rparr>"
proof -
  have a: "aexit g (aexit f w) = aexit f w"
    using aexit_disconnects [of f w] by (simp add: aexit_def [of g])
  have "length (stamps (trace (aexit f w))) \<le> Suc (length (stamps (trace w)))"
  proof (cases "is_closing (writer (obj w))")
    case True
    then show ?thesis
      by (simp add: aexit_def Let_def emit_def closeConnection_def split: option.splits)
  next
    case False
    then show ?thesis
      using closeConnection_stamp [of _ f]
      by (simp add: aexit_def Let_def emit_def split: option.splits)
  qed
  moreover have "aexit f (w\<lparr>self := init t l c m\<rparr>) = w\<lparr>self := init t l c m\<rparr>"
    by (simp add: aexit_def connected_def init_def)
  ultimately show ?thesis using a by simp
qed

section \<open>Assembling a connection\<close>

text \<open>The decoded value of a four-byte field is the two's complement reading of its bits.\<close>

lemma unsigned_le_bounds: "0 \<le> unsigned_le bs \<and> unsigned_le bs < 256 ^ length bs"
proof (induction bs)
  case Nil
  show ?case by simp
next
  case (Cons b bs)
  have "0 \<le> uint b" "uint b < 256" using uint_bounded [of b] by simp_all
  with Cons show ?case by simp
qed

lemma unsigned_of_bounds: "0 \<le> unsigned_of bo bs \<and> unsigned_of bo bs < 256 ^ length bs"
  using unsigned_le_bounds [of bs] unsigned_le_bounds [of "rev bs"]
  by (cases bo) (simp_all add: unsigned_of_def)

lemma signed32_range:
  assumes "length bs = 4"
  shows "- (2 ^ 31) \<le> signed32 bo bs \<and> signed32 bo bs < 2 ^ 31"
  using unsigned_of_bounds [of bo bs] assms by (simp add: signed32_def Let_def)

lemma signed32_sint:
  assumes "length bs = 4"
  shows "signed32 bo bs = sint (word_of_int (unsigned_of bo bs) :: 32 word)"
proof -
  let ?u = "unsigned_of bo bs"
  have b: "0 \<le> ?u" "?u < 2 ^ 32" using unsigned_of_bounds [of bo bs] assms by simp_all
  show ?thesis
  proof (cases "?u < 2 ^ 31")
    case True
    with b have "signed_take_bit 31 ?u = ?u"
      by (intro signed_take_bit_int_eq_self) simp_all
    with True show ?thesis by (simp add: signed32_def Let_def sint_sbintrunc')
  next
    case False
    have "signed_take_bit 31 ?u = signed_take_bit 31 (?u - 2 ^ 32)"
      by (simp add: signed_take_bit_eq_iff_take_bit_eq take_bit_eq_mod)
    also from False b have "\<dots> = ?u - 2 ^ 32"
      by (intro signed_take_bit_int_eq_self) simp_all
    finally show ?thesis using False by (simp add: signed32_def Let_def sint_sbintrunc')
  qed
qed

text \<open>Decoding the native record of a value in the range of a C \<^verbatim>\<open>int\<close> gives the value.\<close>

lemma split_bytes:
  fixes k :: int
  assumes "0 \<le> k" "k < 2 ^ 32"
  shows "k mod 256 + 256 * ((k div 256) mod 256 + 256 * ((k div 65536) mod 256
           + 256 * ((k div 16777216) mod 256))) = k"
proof -
  define q1 q2 q3 where "q1 = k div 256" and "q2 = q1 div 256" and "q3 = q2 div 256"
  define r0 r1 r2 where "r0 = k mod 256" and "r1 = q1 mod 256" and "r2 = q2 mod 256"
  have a: "k = 256 * q1 + r0" by (simp add: q1_def r0_def)
  have b: "q1 = 256 * q2 + r1" by (simp add: q2_def r1_def)
  have c: "q2 = 256 * q3 + r2" by (simp add: q3_def r2_def)
  have f2: "k div 65536 = q2"
    using zdiv_zmult2_eq [of 256 k 256] by (simp add: q1_def q2_def)
  have f3: "k div 16777216 = q3"
    using zdiv_zmult2_eq [of 256 k 65536] f2 by (simp add: q3_def)
  from assms have "k div 16777216 \<le> 4294967295 div 16777216"
    by (intro zdiv_mono1) simp_all
  then have "k div 16777216 < 256" by simp
  moreover from assms have "0 \<le> k div 16777216" by simp
  ultimately have d: "q3 mod 256 = q3" using f3 by simp
  have "r0 + 256 * (r1 + 256 * (r2 + 256 * q3)) = k"
    using a b c by simp
  then show ?thesis
    by (simp only: f2 f3 d q1_def [symmetric] r0_def [symmetric] r1_def [symmetric] r2_def [symmetric])
qed

lemma top_byte:
  fixes k :: int
  assumes "0 \<le> k" "k < 2 ^ 32"
  shows "k div 16777216 mod 256 = k div 16777216"
proof -
  from assms have "k div 16777216 \<le> 4294967295 div 16777216"
    by (intro zdiv_mono1) simp_all
  moreover from assms have "0 \<le> k div 16777216" by simp
  ultimately show ?thesis by simp
qed

lemma uint_byte: "uint (word_of_int k :: byte) = k mod 256"
  by (simp add: uint_word_of_int)

lemma unsigned_of_record: "unsigned_of bo (record_bytes bo v) = v mod 2 ^ 32"
proof -
  have "0 \<le> v mod 2 ^ 32" "v mod 2 ^ 32 < 2 ^ 32" by simp_all
  from split_bytes [OF this] top_byte [OF this] show ?thesis
    by (cases bo) (simp_all add: unsigned_of_def record_bytes_def Let_def uint_byte)
qed

lemma signed32_record:
  assumes "- (2 ^ 31) \<le> v" "v < 2 ^ 31"
  shows "signed32 bo (record_bytes bo v) = v"
proof (cases "0 \<le> v")
  case True
  with assms have "v mod 2 ^ 32 = v" by simp
  with assms show ?thesis by (simp add: signed32_def unsigned_of_record)
next
  case False
  with assms have "v mod 2 ^ 32 = v + 2 ^ 32"
    using mod_add_self2 [of v "2 ^ 32"] by (simp add: mod_pos_pos_trivial del: mod_add_self2)
  with assms False show ?thesis by (simp add: signed32_def unsigned_of_record)
qed

text \<open>
  C7. The client's \<^verbatim>\<open>_assembleConnection\<close> (which the TCP client inherits) leaves
  \<open>pid\<close>, \<open>uid\<close> and \<open>gid\<close> at \<^verbatim>\<open>None\<close>. The UXD server's reads the peer credentials of
  the writer's socket when it assembles the connection: when the socket option gives the
  native record of the three C integers \<open>p\<close>, \<open>u\<close> and \<open>g\<close>, in the byte order of the
  platform, the connection has exactly \<open>p\<close>, \<open>u\<close> and \<open>g\<close> as \<open>pid\<close>, \<open>uid\<close> and \<open>gid\<close>;
  and any record of twelve bytes is decoded into three integers in the range of a signed
  32-bit integer. In every other field the two connections are the same.
\<close>

theorem assemble_credentials:
  "pid (fst (assembleConnection cl rd wr c)) = None
   \<and> uid (fst (assembleConnection cl rd wr c)) = None
   \<and> gid (fst (assembleConnection cl rd wr c)) = None
   \<and> (peercred (extra_socket wr) = Inr (record_bytes bo p @ record_bytes bo u @ record_bytes bo g)
        \<and> - (2 ^ 31) \<le> p \<and> p < 2 ^ 31 \<and> - (2 ^ 31) \<le> u \<and> u < 2 ^ 31
        \<and> - (2 ^ 31) \<le> g \<and> g < 2 ^ 31 \<longrightarrow>
        (\<exists>conn. uxd_assembleConnection bo peercred (mode cl) rd wr c = Inr (conn, Suc (Suc c))
           \<and> pid conn = Some p \<and> uid conn = Some u \<and> gid conn = Some g
           \<and> conn\<lparr>pid := None, uid := None, gid := None\<rparr> = fst (assembleConnection cl rd wr c)))
   \<and> (peercred (extra_socket wr) = Inr creds \<and> length creds = 12 \<longrightarrow>
        (\<exists>conn x y z. uxd_assembleConnection bo peercred (mode cl) rd wr c = Inr (conn, Suc (Suc c))
           \<and> pid conn = Some x \<and> uid conn = Some y \<and> gid conn = Some z
           \<and> - (2 ^ 31) \<le> x \<and> x < 2 ^ 31 \<and> - (2 ^ 31) \<le> y \<and> y < 2 ^ 31
           \<and> - (2 ^ 31) \<le> z \<and> z < 2 ^ 31
           \<and> conn\<lparr>pid := None, uid := None, gid := None\<rparr> = fst (assembleConnection cl rd wr c)))"
proof -
  have len: "length (record_bytes bo v) = 4" for v
    by (cases bo) (simp_all add: record_bytes_def Let_def)
  have parts: "take 4 (record_bytes bo p @ record_bytes bo u @ record_bytes bo g) = record_bytes bo p"
    "take 4 (drop 4 (record_bytes bo p @ record_bytes bo u @ record_bytes bo g)) = record_bytes bo u"
    "drop 8 (record_bytes bo p @ record_bytes bo u @ record_bytes bo g) = record_bytes bo g"
    by (simp_all add: len)
  have a: "pid (fst (assembleConnection cl rd wr c)) = None
      \<and> uid (fst (assembleConnection cl rd wr c)) = None
      \<and> gid (fst (assembleConnection cl rd wr c)) = None"
    by (simp add: assembleConnection_def)
  have b: "\<exists>conn. uxd_assembleConnection bo peercred (mode cl) rd wr c = Inr (conn, Suc (Suc c))
           \<and> pid conn = Some p \<and> uid conn = Some u \<and> gid conn = Some g
           \<and> conn\<lparr>pid := None, uid := None, gid := None\<rparr> = fst (assembleConnection cl rd wr c)"
    if "peercred (extra_socket wr) = Inr (record_bytes bo p @ record_bytes bo u @ record_bytes bo g)"
      "- (2 ^ 31) \<le> p" "p < 2 ^ 31" "- (2 ^ 31) \<le> u" "u < 2 ^ 31" "- (2 ^ 31) \<le> g" "g < 2 ^ 31"
    using that
    by (simp add: assembleConnection_def uxd_assembleConnection_def unpack_3i_def Let_def len
        parts signed32_record)
  have c: "\<exists>conn x y z. uxd_assembleConnection bo peercred (mode cl) rd wr c = Inr (conn, Suc (Suc c))
           \<and> pid conn = Some x \<and> uid conn = Some y \<and> gid conn = Some z
           \<and> - (2 ^ 31) \<le> x \<and> x < 2 ^ 31 \<and> - (2 ^ 31) \<le> y \<and> y < 2 ^ 31
           \<and> - (2 ^ 31) \<le> z \<and> z < 2 ^ 31
           \<and> conn\<lparr>pid := None, uid := None, gid := None\<rparr> = fst (assembleConnection cl rd wr c)"
    if "peercred (extra_socket wr) = Inr creds" "length creds = 12"
    using that signed32_range [of "take 4 creds" bo] signed32_range [of "take 4 (drop 4 creds)" bo]
      signed32_range [of "drop 8 creds" bo]
    by (simp add: assembleConnection_def uxd_assembleConnection_def unpack_3i_def Let_def)
  from a b c show ?thesis by blast
qed

text \<open>
  Two instances: the record of process 1234, user 1000 and group \<open>-1\<close>, as a little-endian
  and as a big-endian platform lays it out.
\<close>

theorem assemble_credentials_witness:
  "(\<exists>conn. uxd_assembleConnection Little_endian
        (\<lambda>s. Inr [0xD2, 0x04, 0, 0, 0xE8, 0x03, 0, 0, 0xFF, 0xFF, 0xFF, 0xFF])
        None idle_reader open_writer 1 = Inr (conn, Suc (Suc 1))
      \<and> pid conn = Some 1234 \<and> uid conn = Some 1000 \<and> gid conn = Some (- 1))
   \<and> (\<exists>conn. uxd_assembleConnection Big_endian
        (\<lambda>s. Inr [0, 0, 0x04, 0xD2, 0, 0, 0x03, 0xE8, 0xFF, 0xFF, 0xFF, 0xFF])
        None idle_reader open_writer 1 = Inr (conn, Suc (Suc 1))
      \<and> pid conn = Some 1234 \<and> uid conn = Some 1000 \<and> gid conn = Some (- 1))"
proof -
  have le: "record_bytes Little_endian 1234 @ record_bytes Little_endian 1000
      @ record_bytes Little_endian (- 1)
      = [0xD2, 0x04, 0, 0, 0xE8, 0x03, 0, 0, 0xFF, 0xFF, 0xFF, 0xFF]"
    by (simp add: record_bytes_def)
  have be: "record_bytes Big_endian 1234 @ record_bytes Big_endian 1000
      @ record_bytes Big_endian (- 1)
      = [0, 0, 0x04, 0xD2, 0, 0, 0x03, 0xE8, 0xFF, 0xFF, 0xFF, 0xFF]"
    by (simp add: record_bytes_def)
  from assemble_credentials
    [where cl = "init None None None None" and rd = idle_reader and wr = open_writer and c = 1
       and peercred = "\<lambda>s. Inr [0xD2, 0x04, 0, 0, 0xE8, 0x03, 0, 0, 0xFF, 0xFF, 0xFF, 0xFF]"
       and bo = Little_endian and p = 1234 and u = 1000 and g = "- 1"]
    assemble_credentials
    [where cl = "init None None None None" and rd = idle_reader and wr = open_writer and c = 1
       and peercred = "\<lambda>s. Inr [0, 0, 0x04, 0xD2, 0, 0, 0x03, 0xE8, 0xFF, 0xFF, 0xFF, 0xFF]"
       and bo = Big_endian and p = 1234 and u = 1000 and g = "- 1"]
  show ?thesis
    unfolding le be by (simp add: init_def) blast
qed

text \<open>
  C10. A connection assembled by either method starts with the mode that is configured,
  \<open>PERSISTENT\<close> when none is, with \<open>created\<close> and \<open>updated\<close> set from the two readings
  of the clock made at assembly, and with \<open>closed\<close> at \<^verbatim>\<open>None\<close>.
\<close>

theorem initial_lifecycle_state:
  "state (fst (assembleConnection cl rd wr c))
     = \<lparr>st_mode = (case mode cl of None \<Rightarrow> PERSISTENT | Some m \<Rightarrow> m),
        created = c, updated = Suc c, closed = None\<rparr>
   \<and> (uxd_assembleConnection bo peercred m rd wr c = Inr (conn, c') \<longrightarrow>
        state conn
          = \<lparr>st_mode = (case m of None \<Rightarrow> PERSISTENT | Some m' \<Rightarrow> m'),
             created = c, updated = Suc c, closed = None\<rparr>)"
  by (auto simp: assembleConnection_def uxd_assembleConnection_def mode_or_persistent_def Let_def
      split: sum.splits prod.splits)

text \<open>An instance: a UXD server with no mode assembles a connection at time \<open>1\<close>.\<close>

theorem initial_lifecycle_state_witness:
  "\<exists>conn. uxd_assembleConnection Little_endian
        (\<lambda>s. Inr [0xD2, 0x04, 0, 0, 0xE8, 0x03, 0, 0, 0xFF, 0xFF, 0xFF, 0xFF])
        None idle_reader open_writer 1 = Inr (conn, 3)
      \<and> state conn = \<lparr>st_mode = PERSISTENT, created = 1, updated = 2, closed = None\<rparr>"
proof -
  obtain conn where c: "uxd_assembleConnection Little_endian
        (\<lambda>s. Inr [0xD2, 0x04, 0, 0, 0xE8, 0x03, 0, 0, 0xFF, 0xFF, 0xFF, 0xFF])
        None idle_reader open_writer 1 = Inr (conn, 3)"
    by (simp add: uxd_assembleConnection_def unpack_3i_def Let_def)
  from initial_lifecycle_state [of "init None None None None" idle_reader open_writer 1 Little_endian
      "\<lambda>s. Inr [0xD2, 0x04, 0, 0, 0xE8, 0x03, 0, 0, 0xFF, 0xFF, 0xFF, 0xFF]" None conn 3] c
  show ?thesis by simp
qed

section \<open>Setting up the UXD socket\<close>

text \<open>
  C8 at a directory. When the configured path is a directory, \<^verbatim>\<open>__aenter__\<close> does not
  fail with \<^verbatim>\<open>freedmIPCSocketCreation\<close>: \<^verbatim>\<open>os.rmdir()\<close> is called without its
  argument, and the handler's message refers to the unbound local \<^verbatim>\<open>e\<close>, so the exception
  that leaves the method is \<^verbatim>\<open>UnboundLocalError\<close>.
\<close>

theorem uxd_aenter_directory:
  "uxd_aenter permitted (Some (c # p)) (fs(c # p := Some Directory)) = Inl UnboundLocalError"
  by (simp add: uxd_aenter_def os_rmdir_no_argument_def directory_message_def)

text \<open>The other half of C8 holds: a regular file at the path is removed before the bind.\<close>

lemma uxd_aenter_regular_file:
  "uxd_aenter True (Some (c # p)) (fs(c # p := Some Regular_file))
     = Inr (fs(c # p := Some Socket_file))"
  by (simp add: uxd_aenter_def os_remove_def sock_bind_def)

section \<open>What one pass through the loop body does\<close>

text \<open>
  A stronger form of the invariant rule: a pass that leaves the loop need only establish
  the property wanted at the exit.
\<close>

lemma read_loop_exit_invariant:
  assumes step: "\<And>k w r k' w1. I k w \<Longrightarrow> \<not> at_eof (reader (obj w)) \<Longrightarrow>
            fetch k (stamp_updated w) = (r, k', w1) \<Longrightarrow>
            (case r of Got raw \<Rightarrow> I k' (after_fetch r w1) | _ \<Rightarrow> Q w1)"
    and fin: "\<And>k w. I k w \<Longrightarrow> Q w"
  shows "read_loop h k w = (ex, w') \<Longrightarrow> I k w \<Longrightarrow> Q w'"
proof (induction h k w rule: read_loop.induct)
  case (1 h chunks w)
  show ?case
  proof (cases "at_eof (reader (obj w))")
    case True
    with "1.prems" fin show ?thesis by (auto simp: read_loop.simps)
  next
    case False
    obtain r c w1 where f: "fetch chunks (stamp_updated w) = (r, c, w1)"
      by (cases "fetch chunks (stamp_updated w)") auto
    note s = step [OF "1.prems"(2) False f]
    show ?thesis
    proof (cases r)
      case (Got raw)
      from f Got have fs: "(Got raw, c, w1) = fetch chunks (stamp_updated w)" by simp
      from s Got have i: "I c (after_fetch (Got raw) w1)" by simp
      show ?thesis
      proof (cases "raw = []")
        case True
        with Got f False "1.prems"(1) have l: "read_loop h c w1 = (ex, w')"
          by (simp add: read_loop.simps [of h chunks w])
        from True have e: "\<not> length raw \<noteq> 0" by simp
        from i True have "I c w1" by (simp add: after_fetch_def)
        with "1.IH"(2) [OF False fs refl refl e l] show ?thesis .
      next
        case ne: False
        then have n: "length raw \<noteq> 0" by simp
        from i ne have i': "I c (emit (Handle_message raw) w1)" by (simp add: after_fetch_def)
        show ?thesis
        proof (cases "h raw")
          case None
          then have hm: "(None, emit (Handle_message raw) w1) = handleMessage h raw w1"
            by (simp add: handleMessage_def)
          from None Got f False ne "1.prems"(1)
          have l: "read_loop h c (emit (Handle_message raw) w1) = (ex, w')"
            by (simp add: read_loop.simps [of h chunks w] handleMessage_def)
          from "1.IH"(1) [OF False fs refl refl n hm refl l i'] show ?thesis .
        next
          case (Some e)
          with Got f False ne "1.prems"(1) have "w' = emit (Handle_message raw) w1"
            by (simp add: read_loop.simps [of h chunks w] handleMessage_def)
          with i' fin show ?thesis by blast
        qed
      qed
    next
      case Stop_budget
      with f False "1.prems"(1) have "w' = w1" by (simp add: read_loop.simps [of h chunks w])
      with s Stop_budget show ?thesis by simp
    next
      case (Failed e)
      with f False "1.prems"(1) have "w' = w1" by (simp add: read_loop.simps [of h chunks w])
      with s Failed show ?thesis by simp
    next
      case Stuck
      with f False "1.prems"(1) have "w' = w1" by (simp add: read_loop.simps [of h chunks w])
      with s Stuck show ?thesis by simp
    qed
  qed
qed

lemma messages_append [simp]: "messages (t @ u) = messages t @ messages u"
  by (induction t rule: messages.induct) auto

lemma reads_append [simp]: "reads (t @ u) = reads t @ reads u"
  by (induction t rule: reads.induct) auto

lemma returned_append [simp]: "returned (t @ u) = returned t @ returned u"
  by (induction t rule: returned.induct) auto

lemma total_bytes_simps [simp]:
  "total_bytes [] = 0"
  "total_bytes (m # ms) = length m + total_bytes ms"
  "total_bytes (ms @ ns) = total_bytes ms + total_bytes ns"
  by (simp_all add: total_bytes_def)

lemma read_length:
  "read n r = (Returns raw, r') \<Longrightarrow> 0 < n \<Longrightarrow> int (length raw) \<le> n"
  by (auto simp: read_def split: if_splits prod.splits result.splits)

lemma do_read_trace:
  assumes "do_read n w = (r, w1)"
  shows "self w1 = self w \<and>
    (case r of
       Stop_budget \<Rightarrow> False
     | Got raw \<Rightarrow> trace w1 = trace w @ [Read_call n, Read_returned raw]
                   \<and> (0 < n \<longrightarrow> int (length raw) \<le> n)
     | Failed e \<Rightarrow> trace w1 = trace w @ [Read_call n]
     | Stuck \<Rightarrow> trace w1 = trace w @ [Read_call n])"
  using assms
  by (auto simp: do_read_def emit_def Let_def split: prod.splits result.splits dest: read_length)

lemma fetch_chunked:
  assumes "chunksize (self w) = Some C" "C \<noteq> 0" "fetch k w = (r, k', w1)"
  shows "self w1 = self w \<and>
    (case r of
       Stop_budget \<Rightarrow> over_budget (limit (self w)) k C \<and> k' = k \<and> trace w1 = trace w
     | Got raw \<Rightarrow> \<not> over_budget (limit (self w)) k C \<and> k' = k + 1
                   \<and> trace w1 = trace w @ [Read_call C, Read_returned raw]
                   \<and> (0 < C \<longrightarrow> int (length raw) \<le> C)
     | Failed e \<Rightarrow> \<not> over_budget (limit (self w)) k C \<and> k' = k \<and> trace w1 = trace w @ [Read_call C]
     | Stuck \<Rightarrow> \<not> over_budget (limit (self w)) k C \<and> k' = k \<and> trace w1 = trace w @ [Read_call C])"
proof (cases "over_budget (limit (self w)) k C")
  case True
  with assms show ?thesis by (auto simp: fetch_def read_chunk_def)
next
  case False
  obtain r0 w0 where d: "do_read C w = (r0, w0)" by (cases "do_read C w")
  from do_read_trace [OF d] d assms False show ?thesis
    by (auto simp: fetch_def read_chunk_def split: fetched.splits)
qed

lemma fetch_unchunked:
  assumes "\<not> truthy (chunksize (self w))" "fetch k w = (r, k', w1)"
  shows "self w1 = self w \<and> k' = k \<and>
    (case r of
       Stop_budget \<Rightarrow> False
     | Got raw \<Rightarrow> trace w1 = trace w @ [Read_call (or_else (limit (self w)) (- 1)), Read_returned raw]
                   \<and> (0 < or_else (limit (self w)) (- 1)
                        \<longrightarrow> int (length raw) \<le> or_else (limit (self w)) (- 1))
     | Failed e \<Rightarrow> trace w1 = trace w @ [Read_call (or_else (limit (self w)) (- 1))]
     | Stuck \<Rightarrow> trace w1 = trace w @ [Read_call (or_else (limit (self w)) (- 1))])"
proof -
  obtain r0 w0 where d: "do_read (or_else (limit (self w)) (- 1)) w = (r0, w0)"
    by (cases "do_read (or_else (limit (self w)) (- 1)) w")
  from do_read_trace [OF d] d assms show ?thesis
    by (auto simp: fetch_def read_upto_def truthy_def split: option.splits if_splits)
qed

lemma stamp_updated_keeps [simp]:
  "self (stamp_updated w) = self w" "trace (stamp_updated w) = trace w"
  by (simp_all add: stamp_updated_def time_time_def)

section \<open>The chunk budget\<close>

lemma reads_within_append:
  "reads_within L C got (t @ u)
     = (reads_within L C got t \<and> reads_within L C (got + int (total_bytes (returned t))) u)"
  by (induction L C got t rule: reads_within.induct) (auto simp: algebra_simps)

lemma chunk_fits:
  fixes C L j :: int
  assumes "0 < C" "\<not> over_budget (Some L) j C" "0 < L"
  shows "j + 1 \<le> L div C" "C \<le> L - j * C"
proof -
  from assms show "C \<le> L - j * C" by (simp add: over_budget_def)
  then have "(j + 1) * C \<le> L" by (simp add: algebra_simps)
  with assms(1) show "j + 1 \<le> L div C"
    using zdiv_mono1 [of "(j + 1) * C" L C] by simp
qed

lemma chunk_inv_exit:
  assumes "chunk_inv L C new j" "0 < C"
  shows "reads_within L C 0 new \<and> int (total_bytes (messages new)) \<le> (L div C) * C
       \<and> int (length (reads new)) \<le> L div C"
proof -
  from assms have "j * C \<le> (L div C) * C"
    by (intro mult_right_mono) (simp_all add: chunk_inv_def)
  moreover from assms have "int (total_bytes (messages new)) \<le> int (total_bytes (returned new))"
    by (simp add: chunk_inv_def)
  moreover from assms have "int (total_bytes (returned new)) \<le> j * C"
    "int (length (reads new)) \<le> j" "j \<le> L div C" "reads_within L C 0 new"
    by (simp_all add: chunk_inv_def)
  ultimately show ?thesis by linarith
qed

lemma chunk_inv_got:
  assumes "chunk_inv L C new j" "j + 1 \<le> L div C" "C \<le> L - j * C" "int (length raw) \<le> C"
  shows "chunk_inv L C (new @ [Read_call C, Read_returned raw]) (j + 1)"
    and "chunk_inv L C (new @ [Read_call C, Read_returned raw, Handle_message raw]) (j + 1)"
  using assms by (simp_all add: chunk_inv_def reads_within_append algebra_simps)

lemma chunk_inv_failed:
  assumes "chunk_inv L C new j" "j + 1 \<le> L div C" "C \<le> L - j * C" "0 < C"
  shows "chunk_inv L C (new @ [Read_call C]) (j + 1)"
  using assms by (simp add: chunk_inv_def reads_within_append algebra_simps)

lemma chunk_budget:
  assumes cfg: "chunksize (self w) = Some C" "limit (self w) = Some L" "0 < C" "0 < L"
    and run: "read_loop h 0 w = (ex, w')"
  shows "\<exists>new. trace w' = trace w @ new \<and> reads_within L C 0 new
           \<and> int (total_bytes (messages new)) \<le> (L div C) * C
           \<and> int (length (reads new)) \<le> L div C"
proof -
  let ?I = "\<lambda>(j::int) (v::world). self v = self w
              \<and> (\<exists>new. trace v = trace w @ new \<and> chunk_inv L C new j)"
  let ?Q = "\<lambda>v::world. \<exists>new j. trace v = trace w @ new \<and> chunk_inv L C new j"
  have step: "case r of Got raw \<Rightarrow> ?I j' (after_fetch r w1) | _ \<Rightarrow> ?Q w1"
    if i: "?I j v" and ne: "\<not> at_eof (reader (obj v))"
      and f: "fetch j (stamp_updated v) = (r, j', w1)" for j v r j' w1
  proof -
    from i obtain new where n: "trace v = trace w @ new" "chunk_inv L C new j" by blast
    from i cfg have c: "chunksize (self (stamp_updated v)) = Some C" "C \<noteq> 0"
      and l: "limit (self (stamp_updated v)) = Some L" by simp_all
    note fc = fetch_chunked [OF c f, unfolded l]
    show ?thesis
    proof (cases r)
      case Stop_budget
      with fc n show ?thesis by auto
    next
      case (Got raw)
      with fc cfg have fit: "j + 1 \<le> L div C" "C \<le> L - j * C" and len: "int (length raw) \<le> C"
        by (auto intro: chunk_fits)
      from Got fc i n chunk_inv_got [OF n(2) fit len] show ?thesis
        by (auto simp: after_fetch_def emit_def)
    next
      case (Failed e)
      with fc cfg have fit: "j + 1 \<le> L div C" "C \<le> L - j * C" by (auto intro: chunk_fits)
      from Failed fc n chunk_inv_failed [OF n(2) fit cfg(3)] show ?thesis by auto
    next
      case Stuck
      with fc cfg have fit: "j + 1 \<le> L div C" "C \<le> L - j * C" by (auto intro: chunk_fits)
      from Stuck fc n chunk_inv_failed [OF n(2) fit cfg(3)] show ?thesis by auto
    qed
  qed
  have "?Q w'"
  proof (rule read_loop_exit_invariant [where I = ?I and Q = ?Q and h = h and k = 0 and w = w])
    show "read_loop h 0 w = (ex, w')" by (rule run)
    from cfg have "0 \<le> L div C" by (simp add: pos_imp_zdiv_nonneg_iff)
    then show "?I 0 w" by (simp add: chunk_inv_def)
  next
    fix j v r j' w1
    assume "?I j v" "\<not> at_eof (reader (obj v))" "fetch j (stamp_updated v) = (r, j', w1)"
    then show "case r of Got raw \<Rightarrow> ?I j' (after_fetch r w1) | _ \<Rightarrow> ?Q w1" by (rule step)
  next
    fix j v
    assume "?I j v"
    then show "?Q v" by blast
  qed
  then obtain new j where "trace w' = trace w @ new" "chunk_inv L C new j" by blast
  with chunk_inv_exit [OF this(2) cfg(3)] show ?thesis by blast
qed

lemma budget_stop:
  assumes "chunksize (self w) = Some C" "C \<noteq> 0" "limit (self w) = Some L" "L \<noteq> 0"
    "L - k * C < C" "\<not> at_eof (reader (obj w))"
  shows "read_loop h k w = (Budget_exhausted, stamp_updated w)"
  using assms
  by (simp add: read_loop.simps [of h k w] fetch_def read_chunk_def over_budget_def)

section \<open>Reading in chunks under a limit\<close>

text \<open>
  C4. With a chunk size \<open>C > 0\<close> and a limit \<open>L \<ge> C\<close>, the messages that one run of the
  read loop hands to the handler carry at most \<open>(L div C) * C\<close> bytes in all, and every read
  is issued while at least \<open>C\<close> bytes of the limit are left over the bytes already read. Once
  less than one chunk is left of the budget, the loop stops without reading, and
  \<^verbatim>\<open>_handleConnection\<close> then returns normally through \<^verbatim>\<open>close\<close>.
\<close>

theorem chunked_limit_bounds_delivery:
  assumes "chunksize (self w) = Some C" "limit (self w) = Some L" "0 < C" "C \<le> L"
    and "read_loop h 0 w = (ex, w')"
  shows "(\<exists>new. trace w' = trace w @ new
            \<and> int (total_bytes (messages new)) \<le> (L div C) * C
            \<and> reads_within L C 0 new)
       \<and> (ex = Budget_exhausted \<longrightarrow> handleConnection h f w = (Returns (), close f w'))
       \<and> (\<forall>k v. chunksize (self v) = Some C \<and> limit (self v) = Some L \<and> L - k * C < C
               \<and> \<not> at_eof (reader (obj v))
             \<longrightarrow> read_loop h k v = (Budget_exhausted, stamp_updated v))"
proof -
  from assms have "0 < L" by simp
  from chunk_budget [OF assms(1,2,3) this assms(5)]
  have "\<exists>new. trace w' = trace w @ new
            \<and> int (total_bytes (messages new)) \<le> (L div C) * C
            \<and> reads_within L C 0 new" by blast
  moreover from assms(5)
  have "ex = Budget_exhausted \<longrightarrow> handleConnection h f w = (Returns (), close f w')"
    by (simp add: handleConnection_def)
  moreover from assms(3,4)
  have "\<forall>k v. chunksize (self v) = Some C \<and> limit (self v) = Some L \<and> L - k * C < C
               \<and> \<not> at_eof (reader (obj v))
             \<longrightarrow> read_loop h k v = (Budget_exhausted, stamp_updated v)"
    by (auto intro!: budget_stop)
  ultimately show ?thesis by blast
qed

text \<open>
  The scenario of the claim: \<open>C = 4\<close>, \<open>L = 10\<close>, ten bytes arrive in one write. The handler
  gets two messages of four bytes and no third one.
\<close>

theorem chunked_limit_scenario:
  "fst (read_loop (\<lambda>m. None) 0
      (opened (init None (Some 10) (Some 4) None)
         (idle_reader\<lparr>pending := [Data [1, 2, 3, 4, 5, 6, 7, 8, 9, 10]]\<rparr>) open_writer))
     = Budget_exhausted
   \<and> messages (trace (snd (handleConnection (\<lambda>m. None) handler_cancelled
      (opened (init None (Some 10) (Some 4) None)
         (idle_reader\<lparr>pending := [Data [1, 2, 3, 4, 5, 6, 7, 8, 9, 10]]\<rparr>) open_writer))))
     = [[1, 2, 3, 4], [5, 6, 7, 8]]
   \<and> fst (handleConnection (\<lambda>m. None) handler_cancelled
      (opened (init None (Some 10) (Some 4) None)
         (idle_reader\<lparr>pending := [Data [1, 2, 3, 4, 5, 6, 7, 8, 9, 10]]\<rparr>) open_writer))
     = Returns ()"
  using chunked_limit_bounds_delivery
    [of "opened (init None (Some 10) (Some 4) None)
           (idle_reader\<lparr>pending := [Data [1, 2, 3, 4, 5, 6, 7, 8, 9, 10]]\<rparr>) open_writer"
        4 10 "\<lambda>m. None"
        "fst (read_loop (\<lambda>m. None) 0
           (opened (init None (Some 10) (Some 4) None)
              (idle_reader\<lparr>pending := [Data [1, 2, 3, 4, 5, 6, 7, 8, 9, 10]]\<rparr>) open_writer))"
        "snd (read_loop (\<lambda>m. None) 0
           (opened (init None (Some 10) (Some 4) None)
              (idle_reader\<lparr>pending := [Data [1, 2, 3, 4, 5, 6, 7, 8, 9, 10]]\<rparr>) open_writer))"
        handler_cancelled]
  by (simp add: run_defs)


text \<open>The run of \<open>short_reads\<close>: two reads, six bytes, three bytes left in the buffer.\<close>

lemma short_reads_run:
  "chunksize (self short_reads) = Some 4 \<and> limit (self short_reads) = Some 8
   \<and> fst (read_loop (\<lambda>m. None) 0 short_reads) = Budget_exhausted
   \<and> returned (trace (snd (read_loop (\<lambda>m. None) 0 short_reads))) = [[1, 2], [3, 4, 5, 6]]
   \<and> buffer (reader (obj (snd (read_loop (\<lambda>m. None) 0 short_reads)))) = [7, 8, 9]"
  by (simp add: short_reads_def run_defs)

text \<open>
  C9. In chunked mode with a limit \<open>L > 0\<close> the loop issues at most \<open>L div C\<close> reads: each
  read that returns adds one to the counter, however few bytes it returned, and the budget
  test uses the counter. So a run can stop on the budget with fewer than \<open>L\<close> bytes read
  and data still waiting, as \<open>short_reads\<close> shows for \<open>C = 4\<close> and \<open>L = 8\<close>.
\<close>

theorem chunk_budget_counts_reads:
  assumes "chunksize (self w) = Some C" "limit (self w) = Some L" "0 < C" "0 < L"
    and "read_loop h 0 w = (ex, w')"
  shows "(\<exists>new. trace w' = trace w @ new \<and> int (length (reads new)) \<le> L div C)
       \<and> (\<forall>k v raw k' v'. read_chunk C k v = (Got raw, k', v') \<longrightarrow> k' = k + 1)
       \<and> (\<exists>v g v'. chunksize (self v) = Some 4 \<and> limit (self v) = Some 8
             \<and> read_loop g 0 v = (Budget_exhausted, v')
             \<and> total_bytes (returned (trace v')) < 8 \<and> buffer (reader (obj v')) \<noteq> [])"
proof -
  from chunk_budget [OF assms]
  have "\<exists>new. trace w' = trace w @ new \<and> int (length (reads new)) \<le> L div C" by blast
  moreover have "\<forall>k v raw k' v'. read_chunk C k v = (Got raw, k', v') \<longrightarrow> k' = k + 1"
    by (auto simp: read_chunk_def split: if_splits prod.splits fetched.splits)
  moreover have "\<exists>v g v'. chunksize (self v) = Some 4 \<and> limit (self v) = Some 8
             \<and> read_loop g 0 v = (Budget_exhausted, v')
             \<and> total_bytes (returned (trace v')) < 8 \<and> buffer (reader (obj v')) \<noteq> []"
  proof (intro exI conjI)
    show "read_loop (\<lambda>m. None) 0 short_reads
            = (Budget_exhausted, snd (read_loop (\<lambda>m. None) 0 short_reads))"
      using short_reads_run by (metis prod.collapse)
  qed (use short_reads_run in simp_all)
  ultimately show ?thesis by blast
qed

text \<open>An instance: the run of \<open>short_reads\<close> makes two reads, which return six bytes.\<close>

theorem chunk_budget_counts_reads_witness:
  "length (reads (trace (snd (read_loop (\<lambda>m. None) 0 short_reads)))) = 2
   \<and> total_bytes (returned (trace (snd (read_loop (\<lambda>m. None) 0 short_reads)))) = 6"
  using chunk_budget_counts_reads
    [of short_reads 4 8 "\<lambda>m. None" "fst (read_loop (\<lambda>m. None) 0 short_reads)"
        "snd (read_loop (\<lambda>m. None) 0 short_reads)"]
  by (simp add: short_reads_def run_defs)

section \<open>Reading under a limit without a chunk size\<close>

lemma limit_per_read:
  assumes cfg: "\<not> truthy (chunksize (self w))" "limit (self w) = Some L" "0 < L"
    and run: "read_loop h k w = (ex, w')"
  shows "\<exists>new. trace w' = trace w @ new
           \<and> (\<forall>n \<in> set (reads new). n = L)
           \<and> (\<forall>m \<in> set (returned new). int (length m) \<le> L)
           \<and> (\<forall>m \<in> set (messages new). int (length m) \<le> L)"
proof -
  let ?P = "\<lambda>new. (\<forall>n \<in> set (reads new). n = L)
           \<and> (\<forall>m \<in> set (returned new). int (length m) \<le> L)
           \<and> (\<forall>m \<in> set (messages new). int (length m) \<le> L)"
  let ?I = "\<lambda>(j::int) (v::world). self v = self w \<and> (\<exists>new. trace v = trace w @ new \<and> ?P new)"
  let ?Q = "\<lambda>v::world. \<exists>new. trace v = trace w @ new \<and> ?P new"
  have step: "case r of Got raw \<Rightarrow> ?I j' (after_fetch r w1) | _ \<Rightarrow> ?Q w1"
    if i: "?I j v" and ne: "\<not> at_eof (reader (obj v))"
      and f: "fetch j (stamp_updated v) = (r, j', w1)" for j v r j' w1
  proof -
    from i obtain new where n: "trace v = trace w @ new" "?P new" by blast
    from i cfg have c: "\<not> truthy (chunksize (self (stamp_updated v)))"
      and l: "or_else (limit (self (stamp_updated v))) (- 1) = L"
      by (simp_all add: or_else_def)
    note fu = fetch_unchunked [OF c f, unfolded l]
    show ?thesis
    proof (cases r)
      case Stop_budget
      with fu show ?thesis by simp
    next
      case (Got raw)
      with fu cfg(3) have t: "trace w1 = trace v @ [Read_call L, Read_returned raw]"
        and len: "int (length raw) \<le> L" and s: "self w1 = self w" using i by simp_all
      show ?thesis
      proof (cases "raw = []")
        case True
        with Got t n len s have "trace (after_fetch r w1)
            = trace w @ (new @ [Read_call L, Read_returned raw])"
          "?P (new @ [Read_call L, Read_returned raw])" "self (after_fetch r w1) = self w"
          by (simp_all add: after_fetch_def)
        with Got show ?thesis by (auto simp del: append_assoc)
      next
        case False
        with Got t n len s have "trace (after_fetch r w1)
            = trace w @ (new @ [Read_call L, Read_returned raw, Handle_message raw])"
          "?P (new @ [Read_call L, Read_returned raw, Handle_message raw])"
          "self (after_fetch r w1) = self w"
          by (simp_all add: after_fetch_def emit_def)
        with Got show ?thesis by (auto simp del: append_assoc)
      qed
    next
      case (Failed e)
      with fu n have "trace w1 = trace w @ (new @ [Read_call L])" "?P (new @ [Read_call L])"
        by simp_all
      with Failed show ?thesis by (auto simp del: append_assoc)
    next
      case Stuck
      with fu n have "trace w1 = trace w @ (new @ [Read_call L])" "?P (new @ [Read_call L])"
        by simp_all
      with Stuck show ?thesis by (auto simp del: append_assoc)
    qed
  qed
  show ?thesis
  proof (rule read_loop_exit_invariant [where I = ?I and Q = ?Q and h = h and k = k and w = w])
    show "read_loop h k w = (ex, w')" by (rule run)
    show "?I k w" by simp
  next
    fix j v r j' w1
    assume "?I j v" "\<not> at_eof (reader (obj v))" "fetch j (stamp_updated v) = (r, j', w1)"
    then show "case r of Got raw \<Rightarrow> ?I j' (after_fetch r w1) | _ \<Rightarrow> ?Q w1" by (rule step)
  next
    fix j v
    assume "?I j v"
    then show "?Q v" by blast
  qed
qed










text \<open>
  C6 (as amended). With a limit \<open>L > 0\<close> and no chunk size, every read is \<^verbatim>\<open>read(L)\<close>
  and returns at most \<open>L\<close> bytes: the limit caps each read, not the run.
\<close>

theorem limit_caps_each_read:
  assumes "\<not> truthy (chunksize (self w))" "limit (self w) = Some L" "0 < L"
    and "read_loop h k w = (ex, w')"
  shows "\<exists>new. trace w' = trace w @ new
           \<and> (\<forall>n \<in> set (reads new). n = L)
           \<and> (\<forall>m \<in> set (returned new). int (length m) \<le> L)"
  using limit_per_read [OF assms] by blast

text \<open>An instance: with the limit \<open>2\<close> a write of four bytes is read in two reads.\<close>

theorem limit_caps_each_read_witness:
  "returned (trace (snd (read_loop (\<lambda>m. None) 0
      (opened (init None (Some 2) None None)
         (idle_reader\<lparr>pending := [Data [1, 2, 3, 4], Eof]\<rparr>) open_writer))))
     = [[1, 2], [3, 4], []]"
  using limit_caps_each_read
    [of "opened (init None (Some 2) None None)
           (idle_reader\<lparr>pending := [Data [1, 2, 3, 4], Eof]\<rparr>) open_writer"
        2 "\<lambda>m. None" 0
        "fst (read_loop (\<lambda>m. None) 0
           (opened (init None (Some 2) None None)
              (idle_reader\<lparr>pending := [Data [1, 2, 3, 4], Eof]\<rparr>) open_writer))"
        "snd (read_loop (\<lambda>m. None) 0
           (opened (init None (Some 2) None None)
              (idle_reader\<lparr>pending := [Data [1, 2, 3, 4], Eof]\<rparr>) open_writer))"]
  by (simp add: run_defs truthy_def)

text \<open>
  C6 as stated fails: with \<^verbatim>\<open>limit=2\<close> and four bytes written, the reads of one run
  return four bytes in all.
\<close>

theorem limit_is_not_a_total_cap:
  "\<not> int (total_bytes (returned (trace (snd (handleConnection (\<lambda>m. None) handler_cancelled
      (opened (init None (Some 2) None None)
         (idle_reader\<lparr>pending := [Data [1, 2, 3, 4], Eof]\<rparr>) open_writer)))))) \<le> 2"
  by (simp add: run_defs)

end
